theory Spec2Isabelle
  imports Main "HOL-Library.Char_ord" "HOL-Library.AList"
begin

section \<open>Python's backtracking regular expressions\<close>

text \<open>
  \<^verbatim>\<open>read_bayesnet.py\<close> recognises a .bif file with five regular expressions of
  Python's \<^verbatim>\<open>re\<close> module. The patterns use literals, character sets, greedy
  \<^verbatim>\<open>*\<close>, \<^verbatim>\<open>+\<close> and \<^verbatim>\<open>?\<close>, one alternation and capture groups; no anchors,
  so the flag \<^verbatim>\<open>re.M\<close> changes nothing. A text is a list of code points below 256.

  \<open>ms r (s, cs)\<close> lists every way \<open>r\<close> matches a prefix of \<open>s\<close>, as the text left
  over and the captures made, in the order in which Python's backtracking matcher tries
  them: the head of the list is the match Python reports.
\<close>

datatype regex =
    Eps
  | Lit char
  | Cls bool "(char \<times> char) list"
  | Seq regex regex
  | Alt regex regex
  | Star regex
  | Grp nat regex

type_synonym caps = "(nat \<times> string) list"

text \<open>\<open>Cls neg rs\<close> is the set \<^verbatim>\<open>[...]\<close> of the ranges \<open>rs\<close>, negated (\<^verbatim>\<open>[^...]\<close>) when \<open>neg\<close>.\<close>

definition in_cls :: "bool \<Rightarrow> (char \<times> char) list \<Rightarrow> char \<Rightarrow> bool" where
  "in_cls neg rs c = (list_ex (\<lambda>(lo, hi). lo \<le> c \<and> c \<le> hi) rs \<noteq> neg)"

function ms :: "regex \<Rightarrow> string \<times> caps \<Rightarrow> (string \<times> caps) list" where
  "ms Eps x = [x]"
| "ms (Lit c) x = (case fst x of [] \<Rightarrow> [] | d # t \<Rightarrow> if d = c then [(t, snd x)] else [])"
| "ms (Cls neg rs) x =
     (case fst x of [] \<Rightarrow> [] | d # t \<Rightarrow> if in_cls neg rs d then [(t, snd x)] else [])"
| "ms (Seq a b) x = concat (map (ms b) (ms a x))"
| "ms (Alt a b) x = ms a x @ ms b x"
| "ms (Star r) x =
     concat (map (\<lambda>y. if length (fst y) < length (fst x) then ms (Star r) y else []) (ms r x))
     @ [x]"
| "ms (Grp n r) x =
     map (\<lambda>y. (fst y, (n, take (length (fst x) - length (fst y)) (fst x)) # snd y)) (ms r x)"
  by pat_completeness auto
termination
  by (relation "inv_image (less_than <*lex*> less_than) (\<lambda>(r, x). (size r, length (fst x)))")
    auto

definition Plus :: "regex \<Rightarrow> regex" where
  "Plus r = Seq r (Star r)"

definition Opt :: "regex \<Rightarrow> regex" where
  "Opt r = Alt r Eps"

definition lit :: "string \<Rightarrow> regex" where
  "lit s = foldr (\<lambda>c r. Seq (Lit c) r) s Eps"

definition seqs :: "regex list \<Rightarrow> regex" where
  "seqs rs = foldr Seq rs Eps"

definition sp :: regex where
  "sp = Lit CHR '' ''"

definition nl :: regex where
  "nl = Lit CHR 0x0A"

definition no :: "string \<Rightarrow> regex" where
  "no cs = Cls True (map (\<lambda>c. (c, c)) cs)"

text \<open>The number of capture groups of a pattern (they are numbered from 1, in order).\<close>

fun ngroups :: "regex \<Rightarrow> nat" where
  "ngroups (Seq a b) = max (ngroups a) (ngroups b)"
| "ngroups (Alt a b) = max (ngroups a) (ngroups b)"
| "ngroups (Star r) = ngroups r"
| "ngroups (Grp n r) = max n (ngroups r)"
| "ngroups _ = 0"

subsection \<open>The five patterns\<close>

text \<open>\<^verbatim>\<open>NETWORK_RE = r' *network +((?:[^{]+ +)*[^{ ]+) *{\n+ *}'\<close>\<close>

definition NETWORK_RE :: regex where
  "NETWORK_RE = seqs [Star sp, lit ''network'', Plus sp,
     Grp 1 (Seq (Star (Seq (Plus (no ''{'')) (Plus sp))) (Plus (no ''{ ''))),
     Star sp, Lit CHR ''{'', Plus nl, Star sp, Lit CHR ''}'']"

text \<open>\<^verbatim>\<open>VAR_RE = r' *variable +([^{ ]+) +{\n+ *type +(?:discrete|) +\[ +(\d+) +\] *{ *([a-zA-Z, 0-9]+)};\n+ *}'\<close>\<close>

definition VAR_RE :: regex where
  "VAR_RE = seqs [Star sp, lit ''variable'', Plus sp, Grp 1 (Plus (no ''{ '')), Plus sp,
     Lit CHR ''{'', Plus nl, Star sp, lit ''type'', Plus sp, Alt (lit ''discrete'') Eps,
     Plus sp, Lit CHR ''['', Plus sp, Grp 2 (Plus (Cls False [(CHR ''0'', CHR ''9'')])),
     Plus sp, Lit CHR '']'', Star sp, Lit CHR ''{'', Star sp,
     Grp 3 (Plus (Cls False [(CHR ''a'', CHR ''z''), (CHR ''A'', CHR ''Z''),
       (CHR '','', CHR '',''), (CHR '' '', CHR '' ''), (CHR ''0'', CHR ''9'')])),
     Lit CHR ''}'', Lit CHR '';'', Plus nl, Star sp, Lit CHR ''}'']"

text \<open>\<^verbatim>\<open>PROB_RE = r' *probability +\( *(?P<var>[^ ]+) *(?:\| *(?P<parents>[^\)]+))?\) *{\n([^}]+)\n *}'\<close>\<close>

definition PROB_RE :: regex where
  "PROB_RE = seqs [Star sp, lit ''probability'', Plus sp, Lit CHR ''('', Star sp,
     Grp 1 (Plus (no '' '')), Star sp,
     Opt (seqs [Lit CHR ''|'', Star sp, Grp 2 (Plus (no '')''))]),
     Lit CHR '')'', Star sp, Lit CHR ''{'', nl, Grp 3 (Plus (no ''}'')), nl, Star sp,
     Lit CHR ''}'']"

text \<open>\<^verbatim>\<open>TABLE_RE = r' *table +([^;]+) *;'\<close>\<close>

definition TABLE_RE :: regex where
  "TABLE_RE = seqs [Star sp, lit ''table'', Plus sp, Grp 1 (Plus (no '';'')), Star sp,
     Lit CHR '';'']"

text \<open>\<^verbatim>\<open>PARENTS_RE = r' *\(([^\)]+)\) +([^;]+) *;'\<close>\<close>

definition PARENTS_RE :: regex where
  "PARENTS_RE = seqs [Star sp, Lit CHR ''('', Grp 1 (Plus (no '')'')), Lit CHR '')'', Plus sp,
     Grp 2 (Plus (no '';'')), Star sp, Lit CHR '';'']"

subsection \<open>\<^verbatim>\<open>match\<close>, \<^verbatim>\<open>group\<close> and \<^verbatim>\<open>findall\<close>\<close>

datatype error =
    AttributeError string
  | IndexError
  | ValueError string
  | KeyError "string list"

text \<open>
  \<^verbatim>\<open>pattern.match(s)\<close> matches at the start of \<open>s\<close> only; its value is \<open>None\<close> (Python's
  \<^verbatim>\<open>None\<close>) or the match: the text after it and its captures.
\<close>

definition rmatch :: "regex \<Rightarrow> string \<Rightarrow> (string \<times> caps) option" where
  "rmatch r s = (case ms r (s, []) of [] \<Rightarrow> None | y # _ \<Rightarrow> Some y)"

text \<open>
  \<^verbatim>\<open>m.group(i)\<close> for a group number \<open>i\<close> from 1 (the code asks for group 1 only): on
  \<^verbatim>\<open>None\<close> the attribute access raises AttributeError; an index beyond the pattern's
  groups raises IndexError; a group that took no part in the match is \<^verbatim>\<open>None\<close>.
\<close>

definition group :: "regex \<Rightarrow> (string \<times> caps) option \<Rightarrow> nat \<Rightarrow> error + string option" where
  "group r m i =
     (case m of
        None \<Rightarrow> Inl (AttributeError ''group'')
      | Some y \<Rightarrow> if i \<le> ngroups r then Inr (map_of (snd y) i) else Inl IndexError)"

text \<open>
  \<^verbatim>\<open>pattern.findall(s)\<close> scans \<open>s\<close> from left to right for non-overlapping matches; a
  position with no match is skipped. In the tuples it returns, a group that took no part
  is the empty string. (After an empty match the scan moves one character on; none of
  the patterns searched with \<^verbatim>\<open>findall\<close> has an empty match, see \<open>findall_patterns_consume\<close>.)
\<close>

function findall_caps :: "regex \<Rightarrow> string \<Rightarrow> caps list" where
  "findall_caps r s =
     (case rmatch r s of
        None \<Rightarrow> (case s of [] \<Rightarrow> [] | _ # t \<Rightarrow> findall_caps r t)
      | Some y \<Rightarrow>
          if length (fst y) < length s then snd y # findall_caps r (fst y)
          else (case s of [] \<Rightarrow> [snd y] | _ # t \<Rightarrow> snd y # findall_caps r t))"
  by pat_completeness auto
termination
  by (relation "measure (\<lambda>(r, s). length s)") auto

definition grp :: "caps \<Rightarrow> nat \<Rightarrow> string" where
  "grp cs i = (case map_of cs i of None \<Rightarrow> [] | Some g \<Rightarrow> g)"

definition findall2 :: "regex \<Rightarrow> string \<Rightarrow> (string \<times> string) list" where
  "findall2 r s = map (\<lambda>cs. (grp cs 1, grp cs 2)) (findall_caps r s)"

definition findall3 :: "regex \<Rightarrow> string \<Rightarrow> (string \<times> string \<times> string) list" where
  "findall3 r s = map (\<lambda>cs. (grp cs 1, grp cs 2, grp cs 3)) (findall_caps r s)"

section \<open>Strings\<close>

text \<open>\<^verbatim>\<open>s.split(',')\<close>: the pieces between the separators; never an empty list.\<close>

fun split :: "char \<Rightarrow> string \<Rightarrow> string list" where
  "split c [] = [[]]"
| "split c (x # xs) =
     (if x = c then [] # split c xs
      else (case split c xs of [] \<Rightarrow> [[x]] | p # ps \<Rightarrow> (x # p) # ps))"

text \<open>
  \<^verbatim>\<open>s.strip()\<close> removes the whitespace at both ends; below 256 the whitespace of
  \<^verbatim>\<open>str\<close> is 9 to 13, 28 to 32, 133 and 160.
\<close>

definition isspace :: "char \<Rightarrow> bool" where
  "isspace c = List.member
     [CHR 0x09, CHR 0x0A, CHR 0x0B, CHR 0x0C, CHR 0x0D, CHR 0x1C, CHR 0x1D, CHR 0x1E,
      CHR 0x1F, CHR 0x20, CHR 0x85, CHR 0xA0] c"

definition strip :: "string \<Rightarrow> string" where
  "strip s = rev (dropWhile isspace (rev (dropWhile isspace s)))"

section \<open>The data model\<close>

text \<open>
  Class \<^verbatim>\<open>Variable\<close>. The type \<open>'f\<close> is Python's \<^verbatim>\<open>float\<close>; the built-in conversion
  \<^verbatim>\<open>float(str)\<close> is the parameter \<open>to_float\<close> of the parsing functions, \<open>None\<close> where it
  raises ValueError. The dictionary \<^verbatim>\<open>probabilities\<close> is an association list in
  insertion order.
\<close>

record 'f Variable =
  name :: string
  domain :: "string list"
  probabilities :: "(string list \<times> 'f list) list"
  parents :: "string list"
  table :: "'f list"

definition Variable :: "string \<Rightarrow> string list \<Rightarrow> 'f Variable" where
  "Variable n d = \<lparr>name = n, domain = d, probabilities = [], parents = [], table = []\<rparr>"

definition get_probability :: "'f Variable \<Rightarrow> string list \<Rightarrow> error + 'f list" where
  "get_probability v assignment =
     (let key = assignment in
      case map_of (probabilities v) key of
        Some p \<Rightarrow> Inr p
      | None \<Rightarrow> Inl (KeyError key))"

text \<open>
  Class \<^verbatim>\<open>BayesianNetwork\<close>; its attribute \<^verbatim>\<open>name\<close> is \<open>net_name\<close> here (a second
  record cannot reuse the field name), and holds what \<^verbatim>\<open>group(1)\<close> returned.
\<close>

record 'f BayesianNetwork =
  net_name :: "string option"
  variables :: "'f Variable list"

definition get_variable :: "'f Variable list \<Rightarrow> string \<Rightarrow> 'f Variable option" where
  "get_variable vs n = find (\<lambda>var. name var = n) vs"

text \<open>
  An assignment to an attribute of the object \<^verbatim>\<open>get_variable\<close> returned changes the first
  variable of that name in the list.
\<close>

fun update_variable :: "string \<Rightarrow> ('f Variable \<Rightarrow> 'f Variable) \<Rightarrow> 'f Variable list \<Rightarrow> 'f Variable list"
  where
  "update_variable n g [] = []"
| "update_variable n g (var # vs) =
     (if name var = n then g var # vs else var # update_variable n g vs)"

section \<open>Parsing\<close>

definition parse_network :: "string \<Rightarrow> error + string option" where
  "parse_network content =
     (let network = rmatch NETWORK_RE content in
      case group NETWORK_RE network 1 of
        Inl IndexError \<Rightarrow> Inr (Some ''Unnamed network'')
      | Inl e \<Rightarrow> Inl e
      | Inr g \<Rightarrow> Inr g)"

text \<open>The loop appends to \<^verbatim>\<open>self.variables\<close>, here \<open>vs\<close>.\<close>

definition parse_variables :: "string \<Rightarrow> 'f Variable list \<Rightarrow> 'f Variable list" where
  "parse_variables content vs =
     vs @ map (\<lambda>(n, _, vals). Variable n (map strip (split CHR '','' vals)))
       (findall3 VAR_RE content)"

text \<open>\<^verbatim>\<open>tuple(float(v.strip()) for v in s.split(','))\<close>: the first token that does not convert raises.\<close>

fun floats :: "(string \<Rightarrow> 'f option) \<Rightarrow> string list \<Rightarrow> error + 'f list" where
  "floats to_float [] = Inr []"
| "floats to_float (v # vs) =
     (case to_float (strip v) of
        None \<Rightarrow> Inl (ValueError (strip v))
      | Some x \<Rightarrow> (case floats to_float vs of Inl e \<Rightarrow> Inl e | Inr xs \<Rightarrow> Inr (x # xs)))"

text \<open>The loop over the rows of a conditional table, on the variable's dictionary.\<close>

fun add_rows :: "(string \<Rightarrow> 'f option) \<Rightarrow> (string \<times> string) list \<Rightarrow>
    (string list \<times> 'f list) list \<Rightarrow> error + (string list \<times> 'f list) list" where
  "add_rows to_float [] d = Inr d"
| "add_rows to_float (val # vals) d =
     (let key = map strip (split CHR '','' (fst val)) in
      case floats to_float (split CHR '','' (snd val)) of
        Inl e \<Rightarrow> Inl e
      | Inr prob \<Rightarrow> add_rows to_float vals (AList.update key prob d))"

text \<open>One round of the loop of \<^verbatim>\<open>parse_probabilities\<close>, on the list of variables.\<close>

definition parse_probability :: "(string \<Rightarrow> 'f option) \<Rightarrow> string \<times> string \<times> string \<Rightarrow>
    'f Variable list \<Rightarrow> error + 'f Variable list" where
  "parse_probability to_float decl vs =
     (case decl of (n, ps, body) \<Rightarrow>
        if ps \<noteq> [] then
          (let values = findall2 PARENTS_RE body;
               parents' = map strip (split CHR '','' ps) in
           case get_variable vs n of
             None \<Rightarrow> Inl (AttributeError ''parents'')
           | Some var \<Rightarrow>
               (case add_rows to_float values (probabilities var) of
                  Inl e \<Rightarrow> Inl e
                | Inr d \<Rightarrow>
                    Inr (update_variable n (\<lambda>v. v\<lparr>parents := parents', probabilities := d\<rparr>) vs)))
        else
          (let val = rmatch TABLE_RE body in
           case group TABLE_RE val 1 of
             Inl e \<Rightarrow> Inl e
           | Inr None \<Rightarrow> Inl (AttributeError ''split'')
           | Inr (Some g) \<Rightarrow>
               (case floats to_float (split CHR '','' g) of
                  Inl e \<Rightarrow> Inl e
                | Inr t \<Rightarrow>
                    (case get_variable vs n of
                       None \<Rightarrow> Inl (AttributeError ''table'')
                     | Some var \<Rightarrow> Inr (update_variable n (\<lambda>v. v\<lparr>table := t\<rparr>) vs)))))"

fun parse_decls :: "(string \<Rightarrow> 'f option) \<Rightarrow> (string \<times> string \<times> string) list \<Rightarrow>
    'f Variable list \<Rightarrow> error + 'f Variable list" where
  "parse_decls to_float [] vs = Inr vs"
| "parse_decls to_float (decl # decls) vs =
     (case parse_probability to_float decl vs of
        Inl e \<Rightarrow> Inl e
      | Inr vs' \<Rightarrow> parse_decls to_float decls vs')"

definition parse_probabilities :: "(string \<Rightarrow> 'f option) \<Rightarrow> string \<Rightarrow> 'f Variable list \<Rightarrow>
    error + 'f Variable list" where
  "parse_probabilities to_float content vs = parse_decls to_float (findall3 PROB_RE content) vs"

text \<open>
  \<^verbatim>\<open>BayesianNetwork(file)\<close>: \<^verbatim>\<open>__init__\<close> sets \<^verbatim>\<open>variables\<close> to the empty list and
  calls \<^verbatim>\<open>parse_file\<close>, modelled from the text \<^verbatim>\<open>read_text()\<close> returned: the name, then
  the variables, then the probabilities. An exception leaves no network.
\<close>

definition parse_file :: "(string \<Rightarrow> 'f option) \<Rightarrow> string \<Rightarrow> error + 'f BayesianNetwork" where
  "parse_file to_float contents =
     (case parse_network contents of
        Inl e \<Rightarrow> Inl e
      | Inr nm \<Rightarrow>
          (case parse_probabilities to_float contents (parse_variables contents []) of
             Inl e \<Rightarrow> Inl e
           | Inr vs \<Rightarrow> Inr \<lparr>net_name = nm, variables = vs\<rparr>))"

section \<open>Auxiliary definitions\<close>

text \<open>The least number of characters a match of a pattern takes.\<close>

fun minlen :: "regex \<Rightarrow> nat" where
  "minlen Eps = 0"
| "minlen (Lit c) = 1"
| "minlen (Cls neg rs) = 1"
| "minlen (Seq a b) = minlen a + minlen b"
| "minlen (Alt a b) = min (minlen a) (minlen b)"
| "minlen (Star r) = 0"
| "minlen (Grp n r) = minlen r"

text \<open>Every starred sub-pattern takes at least one character each round.\<close>

fun stars_consume :: "regex \<Rightarrow> bool" where
  "stars_consume (Star r) = (0 < minlen r \<and> stars_consume r)"
| "stars_consume (Seq a b) = (stars_consume a \<and> stars_consume b)"
| "stars_consume (Alt a b) = (stars_consume a \<and> stars_consume b)"
| "stars_consume (Grp n r) = stars_consume r"
| "stars_consume _ = True"

text \<open>
  The matches \<^verbatim>\<open>findall\<close> reports, each with the offset at which it starts
  (\<^verbatim>\<open>finditer\<close> with \<^verbatim>\<open>m.start()\<close>), the scan being at offset \<open>i\<close>.
\<close>

function finditer :: "regex \<Rightarrow> nat \<Rightarrow> string \<Rightarrow> (nat \<times> caps) list" where
  "finditer r i s =
     (case rmatch r s of
        None \<Rightarrow> (case s of [] \<Rightarrow> [] | _ # t \<Rightarrow> finditer r (Suc i) t)
      | Some y \<Rightarrow>
          if length (fst y) < length s
          then (i, snd y) # finditer r (i + (length s - length (fst y))) (fst y)
          else (case s of [] \<Rightarrow> [(i, snd y)] | _ # t \<Rightarrow> (i, snd y) # finditer r (Suc i) t))"
  by pat_completeness auto
termination
  by (relation "measure (\<lambda>(r, i, s). length s)") auto

text \<open>
  Where an entry of a variable comes from: the pair \<open>(key, p)\<close> from a row of a declaration
  with parents for the name \<open>n\<close>, the vector \<open>t\<close> from a flat table for the name \<open>n\<close>.
\<close>

definition row_of :: "(string \<Rightarrow> 'f option) \<Rightarrow> string \<Rightarrow> string \<Rightarrow> string list \<Rightarrow> 'f list \<Rightarrow> bool"
  where
  "row_of to_float content n key p \<longleftrightarrow>
     (\<exists>ps body row. (n, ps, body) \<in> set (findall3 PROB_RE content) \<and> ps \<noteq> [] \<and>
        row \<in> set (findall2 PARENTS_RE body) \<and>
        key = map strip (split CHR '','' (fst row)) \<and>
        floats to_float (split CHR '','' (snd row)) = Inr p)"

definition table_of :: "(string \<Rightarrow> 'f option) \<Rightarrow> string \<Rightarrow> string \<Rightarrow> 'f list \<Rightarrow> bool"
  where
  "table_of to_float content n t \<longleftrightarrow>
     (\<exists>body y g. (n, [], body) \<in> set (findall3 PROB_RE content) \<and>
        rmatch TABLE_RE body = Some y \<and> map_of (snd y) 1 = Some g \<and>
        floats to_float (split CHR '','' g) = Inr t)"

subsection \<open>A conversion and texts for the examples\<close>

text \<open>
  \<open>decimal\<close> stands for \<^verbatim>\<open>float\<close> in the examples: it converts the unsigned literals
  \<^verbatim>\<open>digits\<close>, \<^verbatim>\<open>digits.digits\<close>, \<^verbatim>\<open>digits.\<close> and \<^verbatim>\<open>.digits\<close>, which \<^verbatim>\<open>float\<close>
  converts too, and rejects \<^verbatim>\<open>x\<close>, as \<^verbatim>\<open>float\<close> does. The value \<open>m / 10 ^ k\<close> is kept
  as the pair \<open>(m, k)\<close>. The theorems hold for every conversion.
\<close>

definition digit :: "char \<Rightarrow> bool" where
  "digit c = (CHR ''0'' \<le> c \<and> c \<le> CHR ''9'')"

definition digits_val :: "string \<Rightarrow> nat" where
  "digits_val s = foldl (\<lambda>a c. 10 * a + (of_char c - 48)) 0 s"

definition decimal :: "string \<Rightarrow> (nat \<times> nat) option" where
  "decimal s =
     (case split CHR ''.'' s of
        [i] \<Rightarrow> if i \<noteq> [] \<and> list_all digit i then Some (digits_val i, 0) else None
      | [i, fr] \<Rightarrow>
          if i @ fr \<noteq> [] \<and> list_all digit (i @ fr)
          then Some (digits_val (i @ fr), length fr) else None
      | _ \<Rightarrow> None)"

definition header :: string where
  "header = ''network N {\<newline>}\<newline>variable A {\<newline>  type discrete [ 2 ] { a, b };\<newline>}\<newline>''"

definition example_bif :: string where
  "example_bif = header @ ''variable B {\<newline>  type discrete [ 2 ] { c, d };\<newline>}\<newline>probability ( A ) {\<newline>  table 0.1, 0.9;\<newline>}\<newline>probability ( B | A ) {\<newline>  (a) 0.2, 0.8;\<newline>  (b) 0.3, 0.7;\<newline>}\<newline>''"

definition example_A :: "(nat \<times> nat) Variable" where
  "example_A = \<lparr>name = ''A'', domain = [''a'', ''b''], probabilities = [], parents = [],
     table = [(1, 1), (9, 1)]\<rparr>"

definition example_B :: "(nat \<times> nat) Variable" where
  "example_B = \<lparr>name = ''B'', domain = [''c'', ''d''],
     probabilities = [([''a''], [(2, 1), (8, 1)]), ([''b''], [(3, 1), (7, 1)])],
     parents = [''A''], table = []\<rparr>"

definition example_net :: "(nat \<times> nat) BayesianNetwork" where
  "example_net = \<lparr>net_name = Some ''N'', variables = [example_A, example_B]\<rparr>"

definition no_rows_bif :: string where
  "no_rows_bif = header @ ''variable B {\<newline>  type discrete [ 2 ] { c, d };\<newline>}\<newline>probability ( B | A ) {\<newline>  0.2 0.8\<newline>}\<newline>''"

definition no_table_bif :: string where
  "no_table_bif = header @ ''probability ( A ) {\<newline>  0.1 0.9\<newline>}\<newline>''"

definition no_header_bif :: string where
  "no_header_bif = ''variable A {\<newline>  type discrete [ 2 ] { a, b };\<newline>}\<newline>probability ( A ) {\<newline>  table 0.1, 0.9;\<newline>}\<newline>''"

definition short_table_bif :: string where
  "short_table_bif = header @ ''probability ( A ) {\<newline>  table 0.1;\<newline>}\<newline>''"


definition bad_table_bif :: string where
  "bad_table_bif = header @ ''probability ( A ) {\<newline>  table 0.1, x;\<newline>}\<newline>''"

definition bad_row_bif :: string where
  "bad_row_bif = header @ ''probability ( A | B ) {\<newline>  (b) 0.1, x;\<newline>}\<newline>''"


section \<open>The matcher\<close>

declare ms.simps(6) [simp del]
declare findall_caps.simps [simp del]
declare finditer.simps [simp del]

lemma ms_consumes:
  "y \<in> set (ms r x) \<Longrightarrow> length (fst y) + minlen r \<le> length (fst x)"
proof (induction r x arbitrary: y rule: ms.induct)
  case (4 a b x)
  from "4.prems" obtain z where z: "z \<in> set (ms a x)" and y: "y \<in> set (ms b z)"
    by auto
  from "4.IH"(1)[OF z] "4.IH"(2)[OF z y] show ?case by simp
next
  case (5 a b x)
  from "5.prems" have "y \<in> set (ms a x) \<or> y \<in> set (ms b x)" by simp
  then show ?case
    using "5.IH"(1)[of y] "5.IH"(2)[of y] by auto
next
  case (6 r x)
  from "6.prems" have "y = x \<or> (\<exists>z \<in> set (ms r x). length (fst z) < length (fst x) \<and> y \<in> set (ms (Star r) z))"
    by (subst (asm) ms.simps(6)) (auto split: if_splits)
  then show ?case
  proof
    assume "y = x" then show ?thesis by simp
  next
    assume "\<exists>z \<in> set (ms r x). length (fst z) < length (fst x) \<and> y \<in> set (ms (Star r) z)"
    then obtain z where z: "z \<in> set (ms r x)" "length (fst z) < length (fst x)" "y \<in> set (ms (Star r) z)"
      by blast
    from "6.IH"(2)[OF z] z(2) show ?thesis by simp
  qed
qed (auto split: list.splits if_splits)


lemma ms_suffix:
  "y \<in> set (ms r x) \<Longrightarrow> fst y = drop (length (fst x) - length (fst y)) (fst x)"
proof (induction r x arbitrary: y rule: ms.induct)
  case (4 a b x)
  from "4.prems" obtain z where z: "z \<in> set (ms a x)" and y: "y \<in> set (ms b z)"
    by auto
  from ms_consumes[OF z] ms_consumes[OF y]
  have le: "length (fst y) \<le> length (fst z)" "length (fst z) \<le> length (fst x)" by auto
  from "4.IH"(2)[OF z y] have "fst y = drop (length (fst z) - length (fst y)) (fst z)" .
  also from "4.IH"(1)[OF z] have "fst z = drop (length (fst x) - length (fst z)) (fst x)" .
  finally show ?case using le by (simp add: add.commute)
next
  case (5 a b x)
  from "5.prems" have "y \<in> set (ms a x) \<or> y \<in> set (ms b x)" by simp
  then show ?case
    using "5.IH"(1)[of y] "5.IH"(2)[of y] by auto
next
  case (6 r x)
  from "6.prems" have "y = x \<or> (\<exists>z \<in> set (ms r x). length (fst z) < length (fst x) \<and> y \<in> set (ms (Star r) z))"
    by (subst (asm) ms.simps(6)) (auto split: if_splits)
  then show ?case
  proof
    assume "y = x" then show ?thesis by simp
  next
    assume "\<exists>z \<in> set (ms r x). length (fst z) < length (fst x) \<and> y \<in> set (ms (Star r) z)"
    then obtain z where z: "z \<in> set (ms r x)" "length (fst z) < length (fst x)" "y \<in> set (ms (Star r) z)"
      by blast
    from ms_consumes[OF z(3)] z(2)
    have le: "length (fst y) \<le> length (fst z)" "length (fst z) \<le> length (fst x)" by auto
    from "6.IH"(2)[OF z] have "fst y = drop (length (fst z) - length (fst y)) (fst z)" .
    also from "6.IH"(1)[OF z(1)] have "fst z = drop (length (fst x) - length (fst z)) (fst x)" .
    finally show ?thesis using le by (simp add: add.commute)
  qed
qed (auto split: list.splits if_splits)

lemma rmatch_suffix:
  assumes "rmatch r s = Some y"
  shows "fst y = drop (length s - length (fst y)) s"
proof -
  from assms have "y \<in> set (ms r (s, []))"
    by (auto simp: rmatch_def split: list.splits)
  from ms_suffix[OF this] show ?thesis by simp
qed

lemma minlen_lit [simp]: "minlen (lit s) = length s"
  by (induction s) (auto simp: lit_def)

lemma minlen_seqs [simp]: "minlen (seqs rs) = sum_list (map minlen rs)"
  by (induction rs) (auto simp: seqs_def)

lemma minlen_Plus [simp]: "minlen (Plus r) = minlen r"
  by (simp add: Plus_def)

text \<open>
  The patterns searched with \<^verbatim>\<open>findall\<close> have no empty match, and no starred sub-pattern
  of the five has one: the two guards of the model never apply to them.
\<close>

lemma findall_patterns_consume:
  "0 < minlen VAR_RE" "0 < minlen PROB_RE" "0 < minlen PARENTS_RE"
  by (simp_all add: VAR_RE_def PROB_RE_def PARENTS_RE_def)

lemma stars_consume_lit [simp]: "stars_consume (lit s)"
  by (induction s) (auto simp: lit_def)

lemma stars_consume_seqs [simp]: "stars_consume (seqs rs) = list_all stars_consume rs"
  by (induction rs) (auto simp: seqs_def)

lemma patterns_stars_consume:
  "stars_consume NETWORK_RE" "stars_consume VAR_RE" "stars_consume PROB_RE"
  "stars_consume TABLE_RE" "stars_consume PARENTS_RE"
  by (simp_all add: NETWORK_RE_def VAR_RE_def PROB_RE_def TABLE_RE_def PARENTS_RE_def
      Plus_def Opt_def sp_def nl_def no_def)

subsection \<open>Spaces before the keyword\<close>








subsection \<open>Where the matches start\<close>

lemma finditer_findall: "map snd (finditer r i s) = findall_caps r s"
proof (induction r i s rule: finditer.induct)
  case (1 r i s)
  show ?case
  proof (cases "rmatch r s")
    case None
    with "1.IH"(1)[OF None] show ?thesis
      by (subst finditer.simps, subst findall_caps.simps) (auto split: list.splits)
  next
    case (Some y)
    show ?thesis
    proof (cases "length (fst y) < length s")
      case True
      with "1.IH"(2)[OF Some True] Some show ?thesis
        by (subst finditer.simps, subst findall_caps.simps) simp
    next
      case False
      with "1.IH"(3)[OF Some False] Some show ?thesis
        by (subst finditer.simps, subst findall_caps.simps) (auto split: list.splits)
    qed
  qed
qed

lemma finditer_match:
  "(j, cs) \<in> set (finditer r i s) \<Longrightarrow>
     i \<le> j \<and> j - i \<le> length s \<and> (\<exists>y. rmatch r (drop (j - i) s) = Some y \<and> snd y = cs)"
proof (induction r i s rule: finditer.induct)
  case (1 r i s)
  show ?case
  proof (cases "rmatch r s")
    case None
    with "1.prems" obtain c t where s: "s = c # t" and m: "(j, cs) \<in> set (finditer r (Suc i) t)"
      by (subst (asm) finditer.simps) (auto split: list.splits)
    from "1.IH"(1)[OF None s m] obtain z where
      j: "Suc i \<le> j" "j - Suc i \<le> length t"
      and z: "rmatch r (drop (j - Suc i) t) = Some z" "snd z = cs"
      by blast
    from j have "j - i = Suc (j - Suc i)" by simp
    with j z s show ?thesis by simp
  next
    case (Some y)
    show ?thesis
    proof (cases "length (fst y) < length s")
      case True
      let ?k = "length s - length (fst y)"
      from "1.prems" Some True
      have "(j, cs) = (i, snd y) \<or> (j, cs) \<in> set (finditer r (i + ?k) (fst y))"
        by (subst (asm) finditer.simps) auto
      then show ?thesis
      proof
        assume "(j, cs) = (i, snd y)"
        with Some show ?thesis by simp
      next
        assume "(j, cs) \<in> set (finditer r (i + ?k) (fst y))"
        from "1.IH"(2)[OF Some True this]
        obtain z where j: "i + ?k \<le> j" "j - (i + ?k) \<le> length (fst y)"
          and z: "rmatch r (drop (j - (i + ?k)) (fst y)) = Some z" "snd z = cs"
          by blast
        have "drop (j - (i + ?k)) (fst y) = drop (j - (i + ?k)) (drop ?k s)"
          using rmatch_suffix[OF Some] by simp
        also have "\<dots> = drop (j - i) s"
          using j by simp
        finally show ?thesis
          using j z True by auto
      qed
    next
      case False
      from "1.prems" Some False
      have "(j, cs) = (i, snd y) \<or> (\<exists>c t. s = c # t \<and> (j, cs) \<in> set (finditer r (Suc i) t))"
        by (subst (asm) finditer.simps) (auto split: list.splits)
      then show ?thesis
      proof
        assume "(j, cs) = (i, snd y)"
        with Some show ?thesis by simp
      next
        assume "\<exists>c t. s = c # t \<and> (j, cs) \<in> set (finditer r (Suc i) t)"
        then obtain c t where s: "s = c # t" and m: "(j, cs) \<in> set (finditer r (Suc i) t)"
          by blast
        from "1.IH"(3)[OF Some False s m] obtain z where
          j: "Suc i \<le> j" "j - Suc i \<le> length t"
          and z: "rmatch r (drop (j - Suc i) t) = Some z" "snd z = cs"
          by blast
        from j have "j - i = Suc (j - Suc i)" by simp
        with j z s show ?thesis by simp
      qed
    qed
  qed
qed

lemma finditer_sorted: "sorted_wrt (<) (map fst (finditer r i s))"
proof (induction r i s rule: finditer.induct)
  case (1 r i s)
  show ?case
  proof (cases "rmatch r s")
    case None
    then show ?thesis
      using "1.IH"(1)[OF None]
      by (subst finditer.simps) (auto split: list.splits)
  next
    case (Some y)
    show ?thesis
    proof (cases "length (fst y) < length s")
      case True
      have "i < j" if "(j, cs) \<in> set (finditer r (i + (length s - length (fst y))) (fst y))" for j cs
        using finditer_match[OF that] True by auto
      with "1.IH"(2)[OF Some True] Some True show ?thesis
        by (subst finditer.simps) auto
    next
      case False
      have "i < j" if "(j, cs) \<in> set (finditer r (Suc i) t)" for j cs t
        using finditer_match[OF that] by auto
      with "1.IH"(3)[OF Some False] Some False show ?thesis
        by (subst finditer.simps) (auto split: list.splits)
    qed
  qed
qed

section \<open>Splitting and stripping\<close>

lemma split_nonempty: "split c s \<noteq> []"
  by (induction s) (auto split: list.splits)

lemma strip_trimmed:
  "strip s = [] \<or> (\<not> isspace (hd (strip s)) \<and> \<not> isspace (last (strip s)))"
proof (cases "strip s = []")
  case True
  then show ?thesis ..
next
  case False
  let ?t = "dropWhile isspace s"
  let ?u = "dropWhile isspace (rev ?t)"
  from False have u: "?u \<noteq> []" by (simp add: strip_def)
  have t: "?t \<noteq> []"
  proof
    assume e: "?t = []"
    have "?u = []" unfolding e by simp
    with u show False ..
  qed
  have "\<not> isspace (hd ?u)" using u by (rule hd_dropWhile)
  then have l: "\<not> isspace (last (strip s))"
    using u by (simp add: strip_def last_rev)
  have "last ?u = last (rev ?t)"
    using u by (metis last_appendR takeWhile_dropWhile_id)
  also have "\<dots> = hd ?t" using t by (simp add: last_rev)
  finally have "hd (strip s) = hd ?t"
    using u by (simp add: strip_def hd_rev)
  moreover have "\<not> isspace (hd ?t)" using t by (rule hd_dropWhile)
  ultimately show ?thesis using l by simp
qed

section \<open>The builder\<close>

lemma get_variable_Some:
  "get_variable vs n = Some var \<Longrightarrow> var \<in> set vs \<and> name var = n"
  by (induction vs) (auto simp: get_variable_def split: if_splits)

lemma get_variable_None_iff:
  "get_variable vs n = None \<longleftrightarrow> n \<notin> set (map name vs)"
  by (induction vs) (auto simp: get_variable_def)

lemma update_variable_names:
  "(\<And>v. name (g v) = name v) \<Longrightarrow> map name (update_variable n g vs) = map name vs"
  by (induction vs) auto

lemma update_variable_domains:
  "(\<And>v. domain (g v) = domain v) \<Longrightarrow> map domain (update_variable n g vs) = map domain vs"
  by (induction vs) auto

lemma set_update_variable:
  "get_variable vs n = Some var \<Longrightarrow> set (update_variable n g vs) \<subseteq> insert (g var) (set vs)"
  by (induction vs) (auto simp: get_variable_def split: if_splits)

lemma update_variable_cong:
  "get_variable vs n = Some var \<Longrightarrow> g var = h var \<Longrightarrow>
     update_variable n g vs = update_variable n h vs"
  by (induction vs) (auto simp: get_variable_def split: if_splits)

lemma floats_length:
  "floats f ts = Inr xs \<Longrightarrow> length xs = length ts"
  by (induction ts arbitrary: xs) (auto split: option.splits sum.splits)

lemma floats_Inr_all:
  "floats f ts = Inr xs \<Longrightarrow> t \<in> set ts \<Longrightarrow> f (strip t) \<noteq> None"
  by (induction ts arbitrary: xs) (auto split: option.splits sum.splits)

lemma set_alist_update:
  "set (AList.update k v d) \<subseteq> insert (k, v) (set d)"
  by (induction d) auto

lemma add_rows_Inr:
  "add_rows f rows d = Inr d' \<Longrightarrow> (k, p) \<in> set d' \<Longrightarrow>
     (k, p) \<in> set d \<or>
     (\<exists>row \<in> set rows. k = map strip (split CHR '','' (fst row)) \<and>
        floats f (split CHR '','' (snd row)) = Inr p)"
proof (induction rows arbitrary: d)
  case Nil
  then show ?case by simp
next
  case (Cons row rows)
  from Cons.prems(1) obtain prob where
    pr: "floats f (split CHR '','' (snd row)) = Inr prob" and
    rest: "add_rows f rows (AList.update (map strip (split CHR '','' (fst row))) prob d) = Inr d'"
    by (auto simp: Let_def split: sum.splits)
  from Cons.IH[OF rest Cons.prems(2)] show ?case
  proof
    assume "(k, p) \<in> set (AList.update (map strip (split CHR '','' (fst row))) prob d)"
    with set_alist_update have "(k, p) = (map strip (split CHR '','' (fst row)), prob) \<or> (k, p) \<in> set d"
      by fastforce
    with pr show ?thesis by auto
  next
    assume "\<exists>row\<in>set rows. k = map strip (split CHR '','' (fst row)) \<and>
        floats f (split CHR '','' (snd row)) = Inr p"
    then show ?thesis by auto
  qed
qed

lemma add_rows_each:
  "add_rows f rows d = Inr d' \<Longrightarrow> row \<in> set rows \<Longrightarrow>
     \<exists>p. floats f (split CHR '','' (snd row)) = Inr p"
  by (induction rows arbitrary: d) (auto simp: Let_def split: sum.splits)

lemma parse_probability_Inr:
  assumes "parse_probability f (n, ps, body) vs = Inr vs'"
  shows "(ps \<noteq> [] \<and> (\<exists>var d. get_variable vs n = Some var \<and>
            add_rows f (findall2 PARENTS_RE body) (probabilities var) = Inr d \<and>
            vs' = update_variable n
              (\<lambda>v. v\<lparr>parents := map strip (split CHR '','' ps), probabilities := d\<rparr>) vs))
       \<or> (ps = [] \<and> (\<exists>y g t var. rmatch TABLE_RE body = Some y \<and> map_of (snd y) 1 = Some g \<and>
            floats f (split CHR '','' g) = Inr t \<and> get_variable vs n = Some var \<and>
            vs' = update_variable n (\<lambda>v. v\<lparr>table := t\<rparr>) vs))"
  using assms
  by (auto simp: parse_probability_def group_def Let_def
      split: if_splits option.splits sum.splits error.splits)

lemma parse_probability_parents:
  assumes "parse_probability f (n, ps, body) vs = Inr vs'" and "ps \<noteq> []"
  shows "\<exists>var d. get_variable vs n = Some var \<and>
            add_rows f (findall2 PARENTS_RE body) (probabilities var) = Inr d \<and>
            vs' = update_variable n
              (\<lambda>v. v\<lparr>parents := map strip (split CHR '','' ps), probabilities := d\<rparr>) vs"
  using parse_probability_Inr[OF assms(1)] assms(2) by simp

lemma parse_probability_table:
  assumes "parse_probability f (n, [], body) vs = Inr vs'"
  shows "\<exists>y g t var. rmatch TABLE_RE body = Some y \<and> map_of (snd y) 1 = Some g \<and>
            floats f (split CHR '','' g) = Inr t \<and> get_variable vs n = Some var \<and>
            vs' = update_variable n (\<lambda>v. v\<lparr>table := t\<rparr>) vs"
  using parse_probability_Inr[OF assms(1)] by simp

lemma parse_decls_inv:
  assumes "parse_decls f ds vs = Inr vs'"
    and "\<forall>v\<in>set vs. Q v"
    and "\<And>d us us'. d \<in> set ds \<Longrightarrow> parse_probability f d us = Inr us' \<Longrightarrow>
           \<forall>v\<in>set us. Q v \<Longrightarrow> \<forall>v\<in>set us'. Q v"
  shows "\<forall>v\<in>set vs'. Q v"
  using assms
proof (induction ds arbitrary: vs)
  case Nil
  then show ?case by simp
next
  case (Cons d ds)
  from Cons.prems(1) obtain us where
    d: "parse_probability f d vs = Inr us" and r: "parse_decls f ds us = Inr vs'"
    by (auto split: sum.splits)
  have "\<forall>v\<in>set us. Q v"
    using Cons.prems(3)[OF _ d Cons.prems(2)] by simp
  show ?case
  proof (rule Cons.IH[OF r \<open>\<forall>v\<in>set us. Q v\<close>])
    fix d' ws ws'
    assume "d' \<in> set ds" and "parse_probability f d' ws = Inr ws'" and "\<forall>v\<in>set ws. Q v"
    then show "\<forall>v\<in>set ws'. Q v"
      using Cons.prems(3)[of d' ws ws'] by simp
  qed
qed

lemma map_pair_zip: "map (\<lambda>v. (g v, h v)) xs = zip (map g xs) (map h xs)"
  by (induction xs) auto

lemma parse_probability_keeps:
  assumes "parse_probability f d vs = Inr vs'"
  shows "map name vs' = map name vs \<and> map domain vs' = map domain vs"
proof -
  obtain n ps body where d: "d = (n, ps, body)" by (cases d)
  from parse_probability_Inr[OF assms[unfolded d]] show ?thesis
    by (auto simp: update_variable_names update_variable_domains)
qed

lemma parse_decls_keeps:
  "parse_decls f ds vs = Inr vs' \<Longrightarrow> map name vs' = map name vs \<and> map domain vs' = map domain vs"
proof (induction ds arbitrary: vs)
  case Nil
  then show ?case by simp
next
  case (Cons d ds)
  from Cons.prems obtain us where
    d: "parse_probability f d vs = Inr us" and r: "parse_decls f ds us = Inr vs'"
    by (auto split: sum.splits)
  from Cons.IH[OF r] parse_probability_keeps[OF d] show ?case by simp
qed

text \<open>Every declaration of a run that ends well was handled well, on a list of the same names.\<close>

lemma parse_decls_each:
  "parse_decls f ds vs = Inr vs' \<Longrightarrow> d \<in> set ds \<Longrightarrow>
     \<exists>us us'. parse_probability f d us = Inr us' \<and> map name us = map name vs"
proof (induction ds arbitrary: vs)
  case Nil
  then show ?case by simp
next
  case (Cons d' ds)
  from Cons.prems(1) obtain ws where
    d: "parse_probability f d' vs = Inr ws" and r: "parse_decls f ds ws = Inr vs'"
    by (auto split: sum.splits)
  show ?case
  proof (cases "d = d'")
    case True
    with d show ?thesis by blast
  next
    case False
    with Cons.prems(2) have "d \<in> set ds" by simp
    from Cons.IH[OF r this] parse_probability_keeps[OF d] show ?thesis by auto
  qed
qed

lemma parse_file_Inr:
  "parse_file f txt = Inr net \<Longrightarrow>
     parse_decls f (findall3 PROB_RE txt) (parse_variables txt []) = Inr (variables net)"
  by (auto simp: parse_file_def parse_probabilities_def split: sum.splits)

lemma parse_file_cases: "(\<exists>e. parse_file f txt = Inl e) \<or> (\<exists>net. parse_file f txt = Inr net)"
  by (cases "parse_file f txt") auto


lemma parse_variables_fresh:
  "v \<in> set (parse_variables txt []) \<Longrightarrow> probabilities v = [] \<and> parents v = [] \<and> table v = []"
  by (auto simp: parse_variables_def Variable_def)

lemma parse_variables_domains:
  "map domain (parse_variables txt []) =
     map (\<lambda>(n, size, vals). map strip (split CHR '','' vals)) (findall3 VAR_RE txt)"
  by (simp add: parse_variables_def Variable_def split_def comp_def)

lemma domains_trimmed:
  assumes net: "parse_file f txt = Inr net" and v: "v \<in> set (variables net)"
    and l: "l \<in> set (domain v)"
  shows "l = [] \<or> (\<not> isspace (hd l) \<and> \<not> isspace (last l))"
proof -
  from parse_decls_keeps[OF parse_file_Inr[OF net]]
  have "map domain (variables net) =
      map (\<lambda>(n, size, vals). map strip (split CHR '','' vals)) (findall3 VAR_RE txt)"
    by (simp add: parse_variables_domains)
  moreover from v have "domain v \<in> set (map domain (variables net))"
    by simp
  ultimately obtain d where "domain v = map strip (split CHR '','' (snd (snd d)))"
    by (auto simp: split_def)
  with l obtain x where "l = strip x" by auto
  with strip_trimmed[of x] show ?thesis by simp
qed

subsection \<open>What the loop keeps true of every variable\<close>

lemma rows_step:
  fixes f :: "string \<Rightarrow> 'f option"
  assumes d: "d \<in> set (findall3 PROB_RE txt)"
    and ok: "parse_probability f d us = Inr us'"
    and inv: "\<forall>v\<in>set us. \<forall>k p. (k, p) \<in> set (probabilities v) \<longrightarrow> row_of f txt (name v) k p"
  shows "\<forall>v\<in>set us'. \<forall>k p. (k, p) \<in> set (probabilities v) \<longrightarrow> row_of f txt (name v) k p"
proof -
  obtain n ps body where dd: "d = (n, ps, body)" by (cases d)
  show ?thesis
  proof (cases "ps = []")
    case True
    from parse_probability_table[OF ok[unfolded dd True]] obtain t and var :: "'f Variable"
      where var: "get_variable us n = Some var"
        and us': "us' = update_variable n (\<lambda>v. v\<lparr>table := t\<rparr>) us"
      by blast
    show ?thesis
    proof
      fix v assume "v \<in> set us'"
      with set_update_variable[OF var, of "\<lambda>v. v\<lparr>table := t\<rparr>"] us'
      have "v \<in> set us \<or> v = var\<lparr>table := t\<rparr>" by auto
      moreover from get_variable_Some[OF var] have "var \<in> set us" ..
      ultimately show "\<forall>k p. (k, p) \<in> set (probabilities v) \<longrightarrow> row_of f txt (name v) k p"
        using inv by auto
    qed
  next
    case False
    from parse_probability_parents[OF ok[unfolded dd] False] obtain var :: "'f Variable" and dict
      where var: "get_variable us n = Some var"
        and rows: "add_rows f (findall2 PARENTS_RE body) (probabilities var) = Inr dict"
        and us': "us' = update_variable n
              (\<lambda>v. v\<lparr>parents := map strip (split CHR '','' ps), probabilities := dict\<rparr>) us"
      by blast
    from get_variable_Some[OF var] have vin: "var \<in> set us" and vn: "name var = n" by auto
    show ?thesis
    proof
      fix v assume "v \<in> set us'"
      with set_update_variable[OF var] us'
      have "v \<in> set us \<or> v = var\<lparr>parents := map strip (split CHR '','' ps), probabilities := dict\<rparr>"
        by blast
      then show "\<forall>k p. (k, p) \<in> set (probabilities v) \<longrightarrow> row_of f txt (name v) k p"
      proof
        assume "v \<in> set us"
        with inv show ?thesis by blast
      next
        assume v: "v = var\<lparr>parents := map strip (split CHR '','' ps), probabilities := dict\<rparr>"
        have "row_of f txt n k p" if "(k, p) \<in> set dict" for k p
        proof -
          from add_rows_Inr[OF rows that]
          show ?thesis
          proof
            assume "(k, p) \<in> set (probabilities var)"
            with inv vin vn show ?thesis by blast
          next
            assume "\<exists>row\<in>set (findall2 PARENTS_RE body).
              k = map strip (split CHR '','' (fst row)) \<and> floats f (split CHR '','' (snd row)) = Inr p"
            with d dd False show ?thesis unfolding row_of_def by blast
          qed
        qed
        with v vn show ?thesis by auto
      qed
    qed
  qed
qed

lemma table_step:
  fixes f :: "string \<Rightarrow> 'f option"
  assumes d: "d \<in> set (findall3 PROB_RE txt)"
    and ok: "parse_probability f d us = Inr us'"
    and inv: "\<forall>v\<in>set us. table v = [] \<or> table_of f txt (name v) (table v)"
  shows "\<forall>v\<in>set us'. table v = [] \<or> table_of f txt (name v) (table v)"
proof -
  obtain n ps body where dd: "d = (n, ps, body)" by (cases d)
  show ?thesis
  proof (cases "ps = []")
    case True
    from parse_probability_table[OF ok[unfolded dd True]] obtain y g t and var :: "'f Variable"
      where m: "rmatch TABLE_RE body = Some y" "map_of (snd y) 1 = Some g"
        "floats f (split CHR '','' g) = Inr t"
        and var: "get_variable us n = Some var"
        and us': "us' = update_variable n (\<lambda>v. v\<lparr>table := t\<rparr>) us"
      by blast
    from get_variable_Some[OF var] have vin: "var \<in> set us" and vn: "name var = n" by auto
    from d dd True m have src: "table_of f txt n t" unfolding table_of_def by blast
    show ?thesis
    proof
      fix v assume "v \<in> set us'"
      with set_update_variable[OF var, of "\<lambda>v. v\<lparr>table := t\<rparr>"] us'
      have "v \<in> set us \<or> v = var\<lparr>table := t\<rparr>" by auto
      then show "table v = [] \<or> table_of f txt (name v) (table v)"
      proof
        assume "v \<in> set us"
        with inv show ?thesis by blast
      next
        assume "v = var\<lparr>table := t\<rparr>"
        with src vn show ?thesis by simp
      qed
    qed
  next
    case False
    from parse_probability_parents[OF ok[unfolded dd] False] obtain var :: "'f Variable" and dict
      where var: "get_variable us n = Some var"
        and us': "us' = update_variable n
              (\<lambda>v. v\<lparr>parents := map strip (split CHR '','' ps), probabilities := dict\<rparr>) us"
      by blast
    from get_variable_Some[OF var] have vin: "var \<in> set us" and vn: "name var = n" by auto
    show ?thesis
    proof
      fix v assume "v \<in> set us'"
      with set_update_variable[OF var] us'
      have "v \<in> set us \<or> v = var\<lparr>parents := map strip (split CHR '','' ps), probabilities := dict\<rparr>"
        by blast
      then show "table v = [] \<or> table_of f txt (name v) (table v)"
      proof
        assume "v \<in> set us"
        with inv show ?thesis by blast
      next
        assume "v = var\<lparr>parents := map strip (split CHR '','' ps), probabilities := dict\<rparr>"
        with inv vin show ?thesis by auto
      qed
    qed
  qed
qed

lemma parents_step:
  fixes f :: "string \<Rightarrow> 'f option"
  assumes ok: "parse_probability f d us = Inr us'"
    and inv: "\<forall>v\<in>set us. parents v = [] \<longrightarrow> probabilities v = []"
  shows "\<forall>v\<in>set us'. parents v = [] \<longrightarrow> probabilities v = []"
proof -
  obtain n ps body where dd: "d = (n, ps, body)" by (cases d)
  show ?thesis
  proof (cases "ps = []")
    case True
    from parse_probability_table[OF ok[unfolded dd True]] obtain t and var :: "'f Variable"
      where var: "get_variable us n = Some var"
        and us': "us' = update_variable n (\<lambda>v. v\<lparr>table := t\<rparr>) us"
      by blast
    from get_variable_Some[OF var] have vin: "var \<in> set us" by auto
    show ?thesis
    proof
      fix v assume "v \<in> set us'"
      with set_update_variable[OF var, of "\<lambda>v. v\<lparr>table := t\<rparr>"] us'
      have "v \<in> set us \<or> v = var\<lparr>table := t\<rparr>" by auto
      with inv vin show "parents v = [] \<longrightarrow> probabilities v = []" by auto
    qed
  next
    case False
    from parse_probability_parents[OF ok[unfolded dd] False] obtain var :: "'f Variable" and dict
      where var: "get_variable us n = Some var"
        and us': "us' = update_variable n
              (\<lambda>v. v\<lparr>parents := map strip (split CHR '','' ps), probabilities := dict\<rparr>) us"
      by blast
    show ?thesis
    proof
      fix v assume "v \<in> set us'"
      with set_update_variable[OF var] us'
      have "v \<in> set us \<or> v = var\<lparr>parents := map strip (split CHR '','' ps), probabilities := dict\<rparr>"
        by blast
      with inv split_nonempty[of "CHR '',''" ps]
      show "parents v = [] \<longrightarrow> probabilities v = []" by auto
    qed
  qed
qed

subsection \<open>Declarations that end construction\<close>




section \<open>The examples, evaluated\<close>

lemma example_parse: "parse_file decimal example_bif = Inr example_net"
  by code_simp

lemma example_vars:
  "findall3 VAR_RE example_bif = [(''A'', ''2'', ''a, b ''), (''B'', ''2'', ''c, d '')]"
  by code_simp

lemma no_rows_decls: "findall3 PROB_RE no_rows_bif = [(''B'', ''A '', ''  0.2 0.8'')]"
  by code_simp

lemma no_table_decls: "findall3 PROB_RE no_table_bif = [(''A'', [], ''  0.1 0.9'')]"
  by code_simp

lemma no_table_body: "rmatch TABLE_RE ''  0.1 0.9'' = None"
  by code_simp





lemma bad_table_decls: "findall3 PROB_RE bad_table_bif = [(''A'', [], ''  table 0.1, x;'')]"
  by code_simp

lemma bad_table_body: "rmatch TABLE_RE ''  table 0.1, x;'' = Some ([], [(1, ''0.1, x'')])"
  by code_simp

lemma bad_row_decls: "findall3 PROB_RE bad_row_bif = [(''A'', ''B '', ''  (b) 0.1, x;'')]"
  by code_simp

lemma bad_row_body: "findall2 PARENTS_RE ''  (b) 0.1, x;'' = [(''b'', ''0.1, x'')]"
  by code_simp

lemma bad_errors:
  "parse_file decimal bad_table_bif = Inl (ValueError ''x'')"
  "parse_file decimal bad_row_bif = Inl (ValueError ''x'')"
  by code_simp+

lemma no_rows_body: "findall2 PARENTS_RE ''  0.2 0.8'' = []"
  by code_simp

section \<open>The claims\<close>

text \<open>
  C1. \<^verbatim>\<open>get_probability\<close> returns the vector stored under the assignment's tuple when the
  tuple is a key of \<^verbatim>\<open>probabilities\<close>, and raises the KeyError that carries this tuple
  when it is not. In a constructed network the stored vector is the conversion of the
  numeric list of a row of a declaration for this variable whose tuple is the key.
\<close>

theorem get_probability_row:
  fixes f :: "string \<Rightarrow> 'f option"
  shows "(map_of (probabilities v) key = Some p \<longrightarrow> get_probability v key = Inr p)
     \<and> (map_of (probabilities v) key = None \<longrightarrow> get_probability v key = Inl (KeyError key))
     \<and> (parse_file f txt = Inr net \<and> v \<in> set (variables net) \<and>
          map_of (probabilities v) key = Some p \<longrightarrow>
          (\<exists>ps body row. (name v, ps, body) \<in> set (findall3 PROB_RE txt) \<and> ps \<noteq> [] \<and>
             row \<in> set (findall2 PARENTS_RE body) \<and>
             key = map strip (split CHR '','' (fst row)) \<and>
             floats f (split CHR '','' (snd row)) = Inr p))"
proof (intro conjI impI)
  assume "parse_file f txt = Inr net \<and> v \<in> set (variables net) \<and> map_of (probabilities v) key = Some p"
  then have net: "parse_file f txt = Inr net" and v: "v \<in> set (variables net)"
    and kp: "(key, p) \<in> set (probabilities v)"
    by (auto dest: map_of_SomeD)
  have "\<forall>v\<in>set (variables net). \<forall>k p. (k, p) \<in> set (probabilities v) \<longrightarrow> row_of f txt (name v) k p"
  proof (rule parse_decls_inv[OF parse_file_Inr[OF net]])
    show "\<forall>v\<in>set (parse_variables txt []). \<forall>k p. (k, p) \<in> set (probabilities v) \<longrightarrow> row_of f txt (name v) k p"
      by (auto dest: parse_variables_fresh)
  next
    fix d and us us' :: "'f Variable list"
    assume "d \<in> set (findall3 PROB_RE txt)" "parse_probability f d us = Inr us'"
      "\<forall>v\<in>set us. \<forall>k p. (k, p) \<in> set (probabilities v) \<longrightarrow> row_of f txt (name v) k p"
    then show "\<forall>v\<in>set us'. \<forall>k p. (k, p) \<in> set (probabilities v) \<longrightarrow> row_of f txt (name v) k p"
      by (rule rows_step)
  qed
  with v kp have "row_of f txt (name v) key p" by blast
  then show "\<exists>ps body row. (name v, ps, body) \<in> set (findall3 PROB_RE txt) \<and> ps \<noteq> [] \<and>
             row \<in> set (findall2 PARENTS_RE body) \<and>
             key = map strip (split CHR '','' (fst row)) \<and>
             floats f (split CHR '','' (snd row)) = Inr p"
    unfolding row_of_def .
qed (simp_all add: get_probability_def)

theorem get_probability_row_witness:
  "map_of (probabilities example_B) [''a''] = Some [(2, 1), (8, 1)] \<and>
   get_probability example_B [''a''] = Inr [(2, 1), (8, 1)] \<and>
   map_of (probabilities example_B) [''z''] = None \<and>
   get_probability example_B [''z''] = Inl (KeyError [''z'']) \<and>
   parse_file decimal example_bif = Inr example_net \<and>
   example_B \<in> set (variables example_net) \<and>
   (\<exists>ps body row. (''B'', ps, body) \<in> set (findall3 PROB_RE example_bif) \<and> ps \<noteq> [] \<and>
      row \<in> set (findall2 PARENTS_RE body) \<and>
      [''a''] = map strip (split CHR '','' (fst row)) \<and>
      floats decimal (split CHR '','' (snd row)) = Inr [(2, 1), (8, 1)])"
proof -
  have h1: "map_of (probabilities example_B) [''a''] = Some [(2, 1), (8, 1)]"
    by (simp add: example_B_def)
  have h2: "map_of (probabilities example_B) [''z''] = None"
    by (simp add: example_B_def)
  have h3: "example_B \<in> set (variables example_net)"
    by (simp add: example_net_def)
  have n: "name example_B = ''B''"
    by (simp add: example_B_def)
  note t1 = get_probability_row[of example_B "[''a'']" "[(2, 1), (8, 1)]" decimal example_bif
      example_net]
  note t2 = get_probability_row[of example_B "[''z'']" "[]" decimal example_bif example_net]
  from t1 h1 have a: "get_probability example_B [''a''] = Inr [(2, 1), (8, 1)]"
    by blast
  from t2 h2 have b: "get_probability example_B [''z''] = Inl (KeyError [''z''])"
    by blast
  from t1 h1 h3 example_parse
  have c: "\<exists>ps body row. (''B'', ps, body) \<in> set (findall3 PROB_RE example_bif) \<and> ps \<noteq> [] \<and>
      row \<in> set (findall2 PARENTS_RE body) \<and>
      [''a''] = map strip (split CHR '','' (fst row)) \<and>
      floats decimal (split CHR '','' (snd row)) = Inr [(2, 1), (8, 1)]"
    unfolding n by blast
  from h1 a h2 b example_parse h3 c show ?thesis by blast
qed

text \<open>
  C2, as the code has it. A declaration without parents whose body the flat table form
  does not match makes construction fail: the match is \<^verbatim>\<open>None\<close> and \<^verbatim>\<open>value.group\<close>
  raises AttributeError. A declaration with parents whose body holds no row is handled
  without error: the variable gets its parents, nothing else changes.
\<close>

theorem malformed_body:
  fixes f :: "string \<Rightarrow> 'f option" and var :: "'f Variable"
  shows "((n, [], body) \<in> set (findall3 PROB_RE txt) \<and> rmatch TABLE_RE body = None \<longrightarrow>
            (\<exists>e. parse_file f txt = Inl e))
       \<and> (ps \<noteq> [] \<and> findall2 PARENTS_RE body' = [] \<and> get_variable vs m = Some var \<longrightarrow>
            parse_probability f (m, ps, body') vs =
              Inr (update_variable m (\<lambda>v. v\<lparr>parents := map strip (split CHR '','' ps)\<rparr>) vs))"
proof (intro conjI impI)
  assume a: "(n, [], body) \<in> set (findall3 PROB_RE txt) \<and> rmatch TABLE_RE body = None"
  show "\<exists>e. parse_file f txt = Inl e"
  proof (rule ccontr)
    assume "\<not> ?thesis"
    with parse_file_cases obtain net where "parse_file f txt = Inr net" by blast
    from parse_decls_each[OF parse_file_Inr[OF this]] a obtain us us' where
      ok: "parse_probability f (n, [], body) us = Inr us'"
      by blast
    from parse_probability_table[OF ok] a show False by auto
  qed
next
  assume b: "ps \<noteq> [] \<and> findall2 PARENTS_RE body' = [] \<and> get_variable vs m = Some var"
  let ?P = "map strip (split CHR '','' ps)"
  have "update_variable m (\<lambda>v. v\<lparr>parents := ?P, probabilities := probabilities var\<rparr>) vs =
      update_variable m (\<lambda>v. v\<lparr>parents := ?P\<rparr>) vs"
    using b by (intro update_variable_cong[of vs m var]) simp_all
  with b show "parse_probability f (m, ps, body') vs =
      Inr (update_variable m (\<lambda>v. v\<lparr>parents := ?P\<rparr>) vs)"
    by (simp add: parse_probability_def)
qed

theorem malformed_body_witness:
  "(''A'', [], ''  0.1 0.9'') \<in> set (findall3 PROB_RE no_table_bif) \<and>
   rmatch TABLE_RE ''  0.1 0.9'' = None \<and>
   (\<exists>e. parse_file decimal no_table_bif = Inl e) \<and>
   ''A '' \<noteq> [] \<and> findall2 PARENTS_RE ''  0.2 0.8'' = [] \<and>
   get_variable [Variable ''B'' [''c'', ''d'']] ''B'' =
     Some (Variable ''B'' [''c'', ''d''] :: (nat \<times> nat) Variable) \<and>
   parse_probability decimal (''B'', ''A '', ''  0.2 0.8'') [Variable ''B'' [''c'', ''d'']] =
     Inr [\<lparr>name = ''B'', domain = [''c'', ''d''], probabilities = [], parents = [''A''],
       table = []\<rparr>]"
proof -
  have h1: "(''A'', [], ''  0.1 0.9'') \<in> set (findall3 PROB_RE no_table_bif)"
    by (simp add: no_table_decls)
  have h2: "''A '' \<noteq> []"
    by simp
  have h3: "get_variable [Variable ''B'' [''c'', ''d'']] ''B'' =
      Some (Variable ''B'' [''c'', ''d''] :: (nat \<times> nat) Variable)"
    by (simp add: get_variable_def Variable_def)
  have s: "map strip (split CHR '','' ''A '') = [''A'']"
    by code_simp
  note t = malformed_body[of "''A''" "''  0.1 0.9''" no_table_bif decimal "''A ''" "''  0.2 0.8''"
      "[Variable ''B'' [''c'', ''d'']]" "''B''" "Variable ''B'' [''c'', ''d'']"]
  from t h1 no_table_body have a: "\<exists>e. parse_file decimal no_table_bif = Inl e"
    by blast
  from t h2 no_rows_body h3
  have "parse_probability decimal (''B'', ''A '', ''  0.2 0.8'') [Variable ''B'' [''c'', ''d'']] =
      Inr (update_variable ''B'' (\<lambda>v. v\<lparr>parents := map strip (split CHR '','' ''A '')\<rparr>)
        [Variable ''B'' [''c'', ''d'']])"
    by blast
  then have b: "parse_probability decimal (''B'', ''A '', ''  0.2 0.8'')
      [Variable ''B'' [''c'', ''d'']] =
      Inr [\<lparr>name = ''B'', domain = [''c'', ''d''], probabilities = [], parents = [''A''],
        table = []\<rparr>]"
    unfolding s by (simp add: Variable_def)
  from h1 no_table_body a h2 no_rows_body h3 b show ?thesis by blast
qed

text \<open>
  C2 as stated fails: the body \<^verbatim>\<open>0.2 0.8\<close> of the declaration of \<open>B\<close> given \<open>A\<close> matches
  neither form, and construction returns a network in which \<open>B\<close> has an empty table and
  an empty \<^verbatim>\<open>probabilities\<close>.
\<close>

theorem malformed_rows_accepted:
  "rmatch TABLE_RE ''  0.2 0.8'' = None \<and> findall2 PARENTS_RE ''  0.2 0.8'' = [] \<and>
   findall3 PROB_RE no_rows_bif = [(''B'', ''A '', ''  0.2 0.8'')] \<and>
   parse_file decimal no_rows_bif = Inr \<lparr>net_name = Some ''N'', variables =
     [\<lparr>name = ''A'', domain = [''a'', ''b''], probabilities = [], parents = [], table = []\<rparr>,
      \<lparr>name = ''B'', domain = [''c'', ''d''], probabilities = [], parents = [''A''],
        table = []\<rparr>]\<rparr>"
  by code_simp

text \<open>
  C3. A text with no network header: \<^verbatim>\<open>network_re.match\<close> returns \<^verbatim>\<open>None\<close>, and
  \<^verbatim>\<open>network.group(1)\<close> raises AttributeError, which the handler for IndexError does not
  catch; construction fails and the name \<^verbatim>\<open>Unnamed network\<close> is never set.
\<close>

theorem missing_header_raises:
  "rmatch NETWORK_RE no_header_bif = None \<and>
   parse_file decimal no_header_bif = Inl (AttributeError ''group'')"
  by code_simp

text \<open>
  C4. \<^verbatim>\<open>get_variable\<close> with a name that no variable of the network has returns \<^verbatim>\<open>None\<close>;
  it has no raising path.
\<close>

theorem get_variable_absent:
  "n \<notin> set (map name (variables net)) \<Longrightarrow> get_variable (variables net) n = None"
  by (simp add: get_variable_None_iff)

theorem get_variable_absent_witness:
  "''Z'' \<notin> set (map name (variables example_net)) \<and>
   get_variable (variables example_net) ''Z'' = None"
proof -
  have h: "''Z'' \<notin> set (map name (variables example_net))"
    by (simp add: example_net_def example_A_def example_B_def)
  from h get_variable_absent[OF h] show ?thesis ..
qed

text \<open>
  C5, as the code has it. In a constructed network a table is empty or has as many
  entries as the numeric list of a flat table declared for the variable has
  comma-separated tokens, and every vector of \<^verbatim>\<open>probabilities\<close> has as many entries as
  the numeric list of the row it comes from has tokens. Nothing compares these lengths
  with the domain.
\<close>

theorem vector_lengths:
  fixes f :: "string \<Rightarrow> 'f option"
  assumes net: "parse_file f txt = Inr net" and v: "v \<in> set (variables net)"
  shows "(table v = [] \<or>
          (\<exists>body y g. (name v, [], body) \<in> set (findall3 PROB_RE txt) \<and>
             rmatch TABLE_RE body = Some y \<and> map_of (snd y) 1 = Some g \<and>
             length (table v) = length (split CHR '','' g)))
       \<and> (\<forall>key p. (key, p) \<in> set (probabilities v) \<longrightarrow>
            (\<exists>ps body row. (name v, ps, body) \<in> set (findall3 PROB_RE txt) \<and> ps \<noteq> [] \<and>
               row \<in> set (findall2 PARENTS_RE body) \<and>
               key = map strip (split CHR '','' (fst row)) \<and>
               length p = length (split CHR '','' (snd row))))"
proof (intro conjI allI impI)
  have "\<forall>v\<in>set (variables net). table v = [] \<or> table_of f txt (name v) (table v)"
  proof (rule parse_decls_inv[OF parse_file_Inr[OF net]])
    show "\<forall>v\<in>set (parse_variables txt []). table v = [] \<or> table_of f txt (name v) (table v)"
      by (auto dest: parse_variables_fresh)
  next
    fix d and us us' :: "'f Variable list"
    assume "d \<in> set (findall3 PROB_RE txt)" "parse_probability f d us = Inr us'"
      "\<forall>v\<in>set us. table v = [] \<or> table_of f txt (name v) (table v)"
    then show "\<forall>v\<in>set us'. table v = [] \<or> table_of f txt (name v) (table v)"
      by (rule table_step)
  qed
  with v have "table v = [] \<or> table_of f txt (name v) (table v)" by blast
  then show "table v = [] \<or>
          (\<exists>body y g. (name v, [], body) \<in> set (findall3 PROB_RE txt) \<and>
             rmatch TABLE_RE body = Some y \<and> map_of (snd y) 1 = Some g \<and>
             length (table v) = length (split CHR '','' g))"
    unfolding table_of_def using floats_length by blast
next
  fix key p assume kp: "(key, p) \<in> set (probabilities v)"
  have "\<forall>v\<in>set (variables net). \<forall>k p. (k, p) \<in> set (probabilities v) \<longrightarrow> row_of f txt (name v) k p"
  proof (rule parse_decls_inv[OF parse_file_Inr[OF net]])
    show "\<forall>v\<in>set (parse_variables txt []). \<forall>k p. (k, p) \<in> set (probabilities v) \<longrightarrow> row_of f txt (name v) k p"
      by (auto dest: parse_variables_fresh)
  next
    fix d and us us' :: "'f Variable list"
    assume "d \<in> set (findall3 PROB_RE txt)" "parse_probability f d us = Inr us'"
      "\<forall>v\<in>set us. \<forall>k p. (k, p) \<in> set (probabilities v) \<longrightarrow> row_of f txt (name v) k p"
    then show "\<forall>v\<in>set us'. \<forall>k p. (k, p) \<in> set (probabilities v) \<longrightarrow> row_of f txt (name v) k p"
      by (rule rows_step)
  qed
  with v kp have "row_of f txt (name v) key p" by blast
  then show "\<exists>ps body row. (name v, ps, body) \<in> set (findall3 PROB_RE txt) \<and> ps \<noteq> [] \<and>
               row \<in> set (findall2 PARENTS_RE body) \<and>
               key = map strip (split CHR '','' (fst row)) \<and>
               length p = length (split CHR '','' (snd row))"
    unfolding row_of_def using floats_length by blast
qed

theorem vector_lengths_witness:
  "parse_file decimal example_bif = Inr example_net \<and>
   example_A \<in> set (variables example_net) \<and> example_B \<in> set (variables example_net) \<and>
   (\<exists>body y g. (''A'', [], body) \<in> set (findall3 PROB_RE example_bif) \<and>
      rmatch TABLE_RE body = Some y \<and> map_of (snd y) 1 = Some g \<and>
      length [(1, 1), (9, 1) :: nat \<times> nat] = length (split CHR '','' g)) \<and>
   (\<exists>ps body row. (''B'', ps, body) \<in> set (findall3 PROB_RE example_bif) \<and> ps \<noteq> [] \<and>
      row \<in> set (findall2 PARENTS_RE body) \<and>
      [''a''] = map strip (split CHR '','' (fst row)) \<and>
      length [(2, 1), (8, 1) :: nat \<times> nat] = length (split CHR '','' (snd row)))"
proof -
  have hA: "example_A \<in> set (variables example_net)"
    and hB: "example_B \<in> set (variables example_net)"
    by (simp_all add: example_net_def)
  have tA: "table example_A = [(1, 1), (9, 1)]" and nA: "name example_A = ''A''"
    by (simp_all add: example_A_def)
  have kB: "([''a''], [(2, 1), (8, 1)]) \<in> set (probabilities example_B)"
    and nB: "name example_B = ''B''"
    by (simp_all add: example_B_def)
  from vector_lengths[OF example_parse hA]
  have a: "\<exists>body y g. (''A'', [], body) \<in> set (findall3 PROB_RE example_bif) \<and>
      rmatch TABLE_RE body = Some y \<and> map_of (snd y) 1 = Some g \<and>
      length [(1, 1), (9, 1) :: nat \<times> nat] = length (split CHR '','' g)"
    unfolding tA nA by simp
  from vector_lengths[OF example_parse hB] kB
  have b: "\<exists>ps body row. (''B'', ps, body) \<in> set (findall3 PROB_RE example_bif) \<and> ps \<noteq> [] \<and>
      row \<in> set (findall2 PARENTS_RE body) \<and>
      [''a''] = map strip (split CHR '','' (fst row)) \<and>
      length [(2, 1), (8, 1) :: nat \<times> nat] = length (split CHR '','' (snd row))"
    unfolding nB by blast
  from example_parse hA hB a b show ?thesis by blast
qed

text \<open>
  C5 as stated fails: a flat table of one number for a variable of two labels is
  accepted.
\<close>

theorem short_table_accepted:
  "parse_file decimal short_table_bif = Inr \<lparr>net_name = Some ''N'', variables =
     [\<lparr>name = ''A'', domain = [''a'', ''b''], probabilities = [], parents = [],
       table = [(1, 1)]\<rparr>]\<rparr>"
  by code_simp



text \<open>
  C7. A token of the numeric list of a row (declaration with parents) or of the flat
  table (declaration without) that \<^verbatim>\<open>float\<close> does not convert makes construction fail.
\<close>

theorem bad_number_fails:
  fixes f :: "string \<Rightarrow> 'f option"
  assumes "(n, ps, body) \<in> set (findall3 PROB_RE txt)"
    and "(ps \<noteq> [] \<and> (\<exists>row \<in> set (findall2 PARENTS_RE body). tok \<in> set (split CHR '','' (snd row))))
       \<or> (ps = [] \<and> (\<exists>y g. rmatch TABLE_RE body = Some y \<and> map_of (snd y) 1 = Some g \<and>
             tok \<in> set (split CHR '','' g)))"
    and "f (strip tok) = None"
  shows "\<exists>e. parse_file f txt = Inl e"
proof (rule ccontr)
  assume "\<not> ?thesis"
  with parse_file_cases obtain net where "parse_file f txt = Inr net" by blast
  from parse_decls_each[OF parse_file_Inr[OF this] assms(1)] obtain us us' where
    ok: "parse_probability f (n, ps, body) us = Inr us'"
    by blast
  from assms(2) show False
  proof
    assume a: "ps \<noteq> [] \<and> (\<exists>row \<in> set (findall2 PARENTS_RE body). tok \<in> set (split CHR '','' (snd row)))"
    then obtain row where row: "row \<in> set (findall2 PARENTS_RE body)"
      and tok: "tok \<in> set (split CHR '','' (snd row))" by blast
    from a have "ps \<noteq> []" ..
    from parse_probability_parents[OF ok this] obtain var :: "'f Variable" and d where
      "add_rows f (findall2 PARENTS_RE body) (probabilities var) = Inr d" by blast
    from add_rows_each[OF this row] obtain p where "floats f (split CHR '','' (snd row)) = Inr p" ..
    from floats_Inr_all[OF this tok] assms(3) show False by simp
  next
    assume a: "ps = [] \<and> (\<exists>y g. rmatch TABLE_RE body = Some y \<and> map_of (snd y) 1 = Some g \<and>
             tok \<in> set (split CHR '','' g))"
    then obtain y g where y: "rmatch TABLE_RE body = Some y" "map_of (snd y) 1 = Some g"
      and tok: "tok \<in> set (split CHR '','' g)" by blast
    from a have "ps = []" ..
    from parse_probability_table[OF ok[unfolded this]] y
    obtain t where "floats f (split CHR '','' g) = Inr t"
      by auto
    from floats_Inr_all[OF this tok] assms(3) show False by simp
  qed
qed

theorem bad_number_fails_witness:
  "(''A'', [], ''  table 0.1, x;'') \<in> set (findall3 PROB_RE bad_table_bif) \<and>
   rmatch TABLE_RE ''  table 0.1, x;'' = Some ([], [(1, ''0.1, x'')]) \<and>
   '' x'' \<in> set (split CHR '','' ''0.1, x'') \<and> decimal (strip '' x'') = None \<and>
   (\<exists>e. parse_file decimal bad_table_bif = Inl e) \<and>
   parse_file decimal bad_table_bif = Inl (ValueError ''x'') \<and>
   (''A'', ''B '', ''  (b) 0.1, x;'') \<in> set (findall3 PROB_RE bad_row_bif) \<and>
   (''b'', ''0.1, x'') \<in> set (findall2 PARENTS_RE ''  (b) 0.1, x;'') \<and>
   (\<exists>e. parse_file decimal bad_row_bif = Inl e) \<and>
   parse_file decimal bad_row_bif = Inl (ValueError ''x'')"
proof -
  have t1: "(''A'', [], ''  table 0.1, x;'') \<in> set (findall3 PROB_RE bad_table_bif)"
    by (simp add: bad_table_decls)
  have tok: "'' x'' \<in> set (split CHR '','' ''0.1, x'')"
    by simp
  have bad: "decimal (strip '' x'') = None"
    by code_simp
  have t2: "([] \<noteq> ([]::string) \<and>
        (\<exists>row \<in> set (findall2 PARENTS_RE ''  table 0.1, x;'').
           '' x'' \<in> set (split CHR '','' (snd row))))
      \<or> ([] = ([]::string) \<and> (\<exists>y g. rmatch TABLE_RE ''  table 0.1, x;'' = Some y \<and>
           map_of (snd y) 1 = Some g \<and> '' x'' \<in> set (split CHR '','' g)))"
    using bad_table_body tok by simp
  have r1: "(''A'', ''B '', ''  (b) 0.1, x;'') \<in> set (findall3 PROB_RE bad_row_bif)"
    by (simp add: bad_row_decls)
  have r0: "(''b'', ''0.1, x'') \<in> set (findall2 PARENTS_RE ''  (b) 0.1, x;'')"
    by (simp add: bad_row_body)
  have r2: "(''B '' \<noteq> [] \<and>
        (\<exists>row \<in> set (findall2 PARENTS_RE ''  (b) 0.1, x;'').
           '' x'' \<in> set (split CHR '','' (snd row))))
      \<or> (''B '' = [] \<and> (\<exists>y g. rmatch TABLE_RE ''  (b) 0.1, x;'' = Some y \<and>
           map_of (snd y) 1 = Some g \<and> '' x'' \<in> set (split CHR '','' g)))"
    using r0 tok by force
  from bad_number_fails[where f = decimal and tok = "'' x''", OF t1 t2 bad]
    bad_number_fails[where f = decimal and tok = "'' x''", OF r1 r2 bad]
    t1 bad_table_body tok bad r1 r0 bad_errors
  show ?thesis by blast
qed

text \<open>
  C8. The variables of a constructed network are the matches of \<^verbatim>\<open>VAR_RE\<close> in the text,
  in the order of \<^verbatim>\<open>findall\<close>: their names and their domains, the labels split at the
  commas and stripped. The matches start at increasing offsets of the text, and no label
  begins or ends with whitespace.
\<close>

theorem variables_in_order:
  assumes "parse_file f txt = Inr net"
  shows "map (\<lambda>v. (name v, domain v)) (variables net) =
           map (\<lambda>(n, size, vals). (n, map strip (split CHR '','' vals))) (findall3 VAR_RE txt)
       \<and> (\<exists>offs. length offs = length (variables net) \<and> sorted_wrt (<) offs \<and>
            (\<forall>i < length offs. \<exists>y. rmatch VAR_RE (drop (offs ! i) txt) = Some y \<and>
               name (variables net ! i) = grp (snd y) 1 \<and>
               domain (variables net ! i) = map strip (split CHR '','' (grp (snd y) 3))))
       \<and> (\<forall>v \<in> set (variables net). \<forall>l \<in> set (domain v).
            l = [] \<or> (\<not> isspace (hd l) \<and> \<not> isspace (last l)))"
proof
  let ?vs = "parse_variables txt [] :: 'a Variable list"
  from parse_decls_keeps[OF parse_file_Inr[OF assms]]
  have n: "map name (variables net) = map name ?vs"
    and d: "map domain (variables net) = map domain ?vs" by auto
  have "map (\<lambda>v. (name v, domain v)) (variables net) = map (\<lambda>v. (name v, domain v)) ?vs"
    unfolding map_pair_zip n d ..
  then show eq: "map (\<lambda>v. (name v, domain v)) (variables net) =
           map (\<lambda>(n, size, vals). (n, map strip (split CHR '','' vals))) (findall3 VAR_RE txt)"
    by (simp add: parse_variables_def Variable_def split_def comp_def)
  let ?it = "finditer VAR_RE 0 txt"
  let ?offs = "map fst ?it"
  have l1: "length (variables net) = length (findall_caps VAR_RE txt)"
    using arg_cong[where f = length, OF eq] by (simp add: findall3_def)
  have l2: "length ?it = length (findall_caps VAR_RE txt)"
    using arg_cong[where f = length, OF finditer_findall] by simp
  have at: "\<exists>y. rmatch VAR_RE (drop (?offs ! i) txt) = Some y \<and>
               name (variables net ! i) = grp (snd y) 1 \<and>
               domain (variables net ! i) = map strip (split CHR '','' (grp (snd y) 3))"
    if i: "i < length ?offs" for i
  proof -
    from i have i': "i < length ?it" by simp
    then have "(fst (?it ! i), snd (?it ! i)) \<in> set ?it" by simp
    from finditer_match[OF this] obtain y where
      y: "rmatch VAR_RE (drop (fst (?it ! i)) txt) = Some y" "snd y = snd (?it ! i)"
      by auto
    have "map snd ?it ! i = snd (?it ! i)"
      using i' by (rule nth_map)
    then have cs: "findall_caps VAR_RE txt ! i = snd y"
      unfolding finditer_findall y(2) .
    have o: "?offs ! i = fst (?it ! i)"
      using i' by (rule nth_map)
    from i' l1 l2 have iv: "i < length (variables net)" by simp
    then have "(name (variables net ! i), domain (variables net ! i)) =
        map (\<lambda>v. (name v, domain v)) (variables net) ! i" by simp
    also have "\<dots> = (grp (snd y) 1, map strip (split CHR '','' (grp (snd y) 3)))"
      unfolding eq findall3_def using i' l2 cs by simp
    finally have "name (variables net ! i) = grp (snd y) 1"
      and "domain (variables net ! i) = map strip (split CHR '','' (grp (snd y) 3))"
      by simp_all
    with y(1) o show ?thesis by simp
  qed
  have "length ?offs = length (variables net)"
    using l1 l2 by simp
  moreover have "sorted_wrt (<) ?offs"
    by (rule finditer_sorted)
  ultimately have "length ?offs = length (variables net) \<and> sorted_wrt (<) ?offs \<and>
            (\<forall>i < length ?offs. \<exists>y. rmatch VAR_RE (drop (?offs ! i) txt) = Some y \<and>
               name (variables net ! i) = grp (snd y) 1 \<and>
               domain (variables net ! i) = map strip (split CHR '','' (grp (snd y) 3)))"
    using at by blast
  then have "\<exists>offs. length offs = length (variables net) \<and> sorted_wrt (<) offs \<and>
            (\<forall>i < length offs. \<exists>y. rmatch VAR_RE (drop (offs ! i) txt) = Some y \<and>
               name (variables net ! i) = grp (snd y) 1 \<and>
               domain (variables net ! i) = map strip (split CHR '','' (grp (snd y) 3)))"
    by (rule exI)
  moreover have "\<forall>v \<in> set (variables net). \<forall>l \<in> set (domain v).
            l = [] \<or> (\<not> isspace (hd l) \<and> \<not> isspace (last l))"
    using domains_trimmed[OF assms] by blast
  ultimately show "(\<exists>offs. length offs = length (variables net) \<and> sorted_wrt (<) offs \<and>
            (\<forall>i < length offs. \<exists>y. rmatch VAR_RE (drop (offs ! i) txt) = Some y \<and>
               name (variables net ! i) = grp (snd y) 1 \<and>
               domain (variables net ! i) = map strip (split CHR '','' (grp (snd y) 3))))
       \<and> (\<forall>v \<in> set (variables net). \<forall>l \<in> set (domain v).
            l = [] \<or> (\<not> isspace (hd l) \<and> \<not> isspace (last l)))"
    by (rule conjI)
qed

theorem variables_in_order_witness:
  "parse_file decimal example_bif = Inr example_net \<and>
   findall3 VAR_RE example_bif = [(''A'', ''2'', ''a, b ''), (''B'', ''2'', ''c, d '')] \<and>
   map (\<lambda>v. (name v, domain v)) (variables example_net) =
     [(''A'', [''a'', ''b'']), (''B'', [''c'', ''d''])] \<and>
   map (\<lambda>v. (name v, domain v)) (variables example_net) =
     map (\<lambda>(n, size, vals). (n, map strip (split CHR '','' vals))) (findall3 VAR_RE example_bif) \<and>
   (\<exists>offs. length offs = length (variables example_net) \<and> sorted_wrt (<) offs \<and>
      (\<forall>i < length offs. \<exists>y. rmatch VAR_RE (drop (offs ! i) example_bif) = Some y \<and>
         name (variables example_net ! i) = grp (snd y) 1 \<and>
         domain (variables example_net ! i) = map strip (split CHR '','' (grp (snd y) 3))))"
proof -
  have "map (\<lambda>v. (name v, domain v)) (variables example_net) =
     [(''A'', [''a'', ''b'']), (''B'', [''c'', ''d''])]"
    by (simp add: example_net_def example_A_def example_B_def)
  with example_parse variables_in_order[OF example_parse] example_vars show ?thesis
    by blast
qed



text \<open>
  C10. In a constructed network a variable with no parents has an empty
  \<^verbatim>\<open>probabilities\<close>, so \<^verbatim>\<open>get_probability\<close> raises KeyError for every assignment; its
  table is not consulted.
\<close>

theorem get_probability_no_parents:
  fixes f :: "string \<Rightarrow> 'f option"
  assumes net: "parse_file f txt = Inr net" and v: "v \<in> set (variables net)"
    and np: "parents v = []"
  shows "probabilities v = [] \<and> get_probability v assignment = Inl (KeyError assignment)"
proof -
  have "\<forall>v\<in>set (variables net). parents v = [] \<longrightarrow> probabilities v = []"
  proof (rule parse_decls_inv[OF parse_file_Inr[OF net]])
    show "\<forall>v\<in>set (parse_variables txt []). parents v = [] \<longrightarrow> probabilities v = []"
      by (auto dest: parse_variables_fresh)
  next
    fix d and us us' :: "'f Variable list"
    assume "parse_probability f d us = Inr us'"
      "\<forall>v\<in>set us. parents v = [] \<longrightarrow> probabilities v = []"
    then show "\<forall>v\<in>set us'. parents v = [] \<longrightarrow> probabilities v = []"
      by (rule parents_step)
  qed
  with v np have "probabilities v = []" by blast
  then show ?thesis by (simp add: get_probability_def)
qed

theorem get_probability_no_parents_witness:
  "parse_file decimal example_bif = Inr example_net \<and>
   example_A \<in> set (variables example_net) \<and> parents example_A = [] \<and>
   table example_A = [(1, 1), (9, 1)] \<and>
   probabilities example_A = [] \<and>
   get_probability example_A [''a''] = Inl (KeyError [''a''])"
proof -
  have h: "example_A \<in> set (variables example_net)"
    by (simp add: example_net_def)
  have p: "parents example_A = []" and t: "table example_A = [(1, 1), (9, 1)]"
    by (simp_all add: example_A_def)
  from example_parse h p t get_probability_no_parents[OF example_parse h p, of "[''a'']"]
  show ?thesis by blast
qed

end
